theory Spec2Isabelle
  imports Main
begin

section \<open>The item service of \<^verbatim>\<open>src/main.py\<close>\<close>

text \<open>
  The service keeps two module-level globals, the list \<^verbatim>\<open>items\<close> and the counter
  \<^verbatim>\<open>next_id\<close>, and five route handlers that read or update them. The model
  passes both globals explicitly as one record; every handler returns its result
  together with the store it leaves behind. An \<^verbatim>\<open>HTTPException\<close> is a value
  (\<open>Inl\<close>), so each \<^verbatim>\<open>raise\<close> is a branch of the model. The calls to
  \<^verbatim>\<open>logger\<close> write to the log only and are left out.

  Python integers are unbounded: \<open>int\<close>. A Python \<^verbatim>\<open>str\<close> is a sequence of code
  points; here a \<open>string\<close> is read as a sequence of code points in the range
  U+0000 to U+00FF (one \<open>char\<close> per code point), the range in which
  \<^verbatim>\<open>str.lower\<close> maps code point to code point.
\<close>

subsection \<open>Models\<close>

record Item =
  id :: int
  name :: string
  description :: "string option"

record ItemCreate =
  name :: string
  description :: "string option"

text \<open>What a handler can raise: the \<^verbatim>\<open>HTTPException\<close> of the two checks, and the
  \<^verbatim>\<open>ValueError\<close> of \<^verbatim>\<open>list.remove\<close> when the element is not in the list.\<close>

datatype error = HTTPException (status_code: int) (detail: string) | ValueError

subsection \<open>In-memory store\<close>

record store =
  items :: "Item list"
  next_id :: int

definition initial_store :: store where
  "initial_store = \<lparr>items = [], next_id = 1\<rparr>"

subsection \<open>Functions\<close>

text \<open>
  \<^verbatim>\<open>str.strip()\<close> without argument removes the leading and the trailing run of
  white space. White space is what CPython's \<^verbatim>\<open>Py_UNICODE_ISSPACE\<close> accepts; below
  U+0100 these are TAB, LF, VT, FF, CR, the separators U+001C to U+001F, the
  space, NEL (U+0085) and the no-break space (U+00A0).
\<close>

definition isspace :: "char \<Rightarrow> bool" where
  "isspace c = (c \<in> set [CHR 0x09, CHR 0x0A, CHR 0x0B, CHR 0x0C, CHR 0x0D,
                          CHR 0x1C, CHR 0x1D, CHR 0x1E, CHR 0x1F, CHR 0x20,
                          CHR 0x85, CHR 0xA0])"

definition lstrip :: "string \<Rightarrow> string" where
  "lstrip s = dropWhile isspace s"

definition rstrip :: "string \<Rightarrow> string" where
  "rstrip s = rev (dropWhile isspace (rev s))"

definition strip :: "string \<Rightarrow> string" where
  "strip s = rstrip (lstrip s)"

text \<open>
  \<^verbatim>\<open>str.lower()\<close>: below U+0100 the cased upper-case code points are A to Z and
  U+00C0 to U+00DE without the multiplication sign U+00D7; each is mapped to the
  code point 32 above it. All of them have bit 5 clear, so adding 32 sets that bit.
\<close>

definition isupper :: "char \<Rightarrow> bool" where
  "isupper c = (let n = (of_char c :: nat) in
     (65 \<le> n \<and> n \<le> 90) \<or> (192 \<le> n \<and> n \<le> 222 \<and> n \<noteq> 215))"

definition lower_char :: "char \<Rightarrow> char" where
  "lower_char c =
     (if isupper c
      then (case c of Char b0 b1 b2 b3 b4 b5 b6 b7 \<Rightarrow> Char b0 b1 b2 b3 b4 True b6 b7)
      else c)"

definition lower :: "string \<Rightarrow> string" where
  "lower s = map lower_char s"

definition normalize_name :: "string \<Rightarrow> string" where
  "normalize_name nm = lower (strip nm)"

text \<open>\<^verbatim>\<open>find_item\<close>: the \<^verbatim>\<open>for\<close> loop over \<^verbatim>\<open>items\<close>, returning at the first match.\<close>

fun find_item_loop :: "Item list \<Rightarrow> int \<Rightarrow> Item option" where
  "find_item_loop [] item_id = None"
| "find_item_loop (item # rest) item_id =
     (if Item.id item = item_id then Some item else find_item_loop rest item_id)"

definition find_item :: "store \<Rightarrow> int \<Rightarrow> Item option" where
  "find_item s item_id = find_item_loop (items s) item_id"

text \<open>\<^verbatim>\<open>ensure_unique_name\<close>: the loop raises at the first item whose normalized
  name equals the normalized candidate, and falls through otherwise.\<close>

fun ensure_unique_loop :: "Item list \<Rightarrow> string \<Rightarrow> error + unit" where
  "ensure_unique_loop [] normalized = Inr ()"
| "ensure_unique_loop (item # rest) normalized =
     (if normalize_name (Item.name item) = normalized
      then Inl (HTTPException 400 ''Item with this name already exists'')
      else ensure_unique_loop rest normalized)"

definition ensure_unique_name :: "store \<Rightarrow> string \<Rightarrow> error + unit" where
  "ensure_unique_name s nm =
     (let normalized = normalize_name nm in ensure_unique_loop (items s) normalized)"

subsection \<open>Endpoints\<close>

text \<open>The health check returns a dictionary with the two keys \<^verbatim>\<open>status\<close> and
  \<^verbatim>\<open>env\<close>; \<^verbatim>\<open>APP_ENV\<close> is read from the environment at start-up and is a
  parameter here.\<close>

definition health_check :: "string \<Rightarrow> store \<Rightarrow> (string \<times> string) list \<times> store" where
  "health_check APP_ENV s = ([(''status'', ''ok''), (''env'', APP_ENV)], s)"

definition get_items :: "store \<Rightarrow> Item list \<times> store" where
  "get_items s = (items s, s)"

definition create_item :: "store \<Rightarrow> ItemCreate \<Rightarrow> (error + Item) \<times> store" where
  "create_item s item =
     (case ensure_unique_name s (ItemCreate.name item) of
        Inl e \<Rightarrow> (Inl e, s)
      | Inr _ \<Rightarrow>
          (let new_item = \<lparr>Item.id = next_id s,
                           Item.name = ItemCreate.name item,
                           Item.description = ItemCreate.description item\<rparr>;
               s1 = s\<lparr>items := items s @ [new_item]\<rparr>;
               s2 = s1\<lparr>next_id := next_id s1 + 1\<rparr>
           in (Inr new_item, s2)))"

definition get_item :: "store \<Rightarrow> int \<Rightarrow> (error + Item) \<times> store" where
  "get_item s item_id =
     (case find_item s item_id of
        None \<Rightarrow> (Inl (HTTPException 404 ''Item not found''), s)
      | Some item \<Rightarrow> (Inr item, s))"

text \<open>\<^verbatim>\<open>items.remove(item)\<close> deletes the first element equal to \<^verbatim>\<open>item\<close> and
  raises \<^verbatim>\<open>ValueError\<close> when there is none; two \<^verbatim>\<open>Item\<close> objects are equal when
  their three fields are.\<close>

definition list_remove :: "'a \<Rightarrow> 'a list \<Rightarrow> error + 'a list" where
  "list_remove x xs = (if x \<in> set xs then Inr (remove1 x xs) else Inl ValueError)"

definition delete_item :: "store \<Rightarrow> int \<Rightarrow> (error + unit) \<times> store" where
  "delete_item s item_id =
     (case find_item s item_id of
        None \<Rightarrow> (Inl (HTTPException 404 ''Item not found''), s)
      | Some item \<Rightarrow>
          (case list_remove item (items s) of
             Inl e \<Rightarrow> (Inl e, s)
           | Inr xs \<Rightarrow> (Inr (), s\<lparr>items := xs\<rparr>)))"

subsection \<open>Routing\<close>

text \<open>
  The decorators bind each handler to a method and a path, and give the status of
  a normal return: 201 for \<^verbatim>\<open>POST /items\<close>, 204 for \<^verbatim>\<open>DELETE /items/{item_id}\<close>,
  and the framework's default 200 for the three \<^verbatim>\<open>GET\<close> routes. A raised
  \<^verbatim>\<open>HTTPException\<close> is answered with its own status and its detail, any other
  exception with the framework's 500.
\<close>

datatype request =
    GET_health
  | GET_items
  | POST_items ItemCreate
  | GET_item int
  | DELETE_item int

datatype body =
    Health "(string \<times> string) list"
  | ItemList "Item list"
  | ItemBody Item
  | NoContent
  | Detail string

record response =
  status :: int
  content :: body

definition error_response :: "error \<Rightarrow> response" where
  "error_response e =
     (case e of
        HTTPException code d \<Rightarrow> \<lparr>status = code, content = Detail d\<rparr>
      | ValueError \<Rightarrow> \<lparr>status = 500, content = Detail ''Internal Server Error''\<rparr>)"

fun app :: "string \<Rightarrow> store \<Rightarrow> request \<Rightarrow> response \<times> store" where
  "app APP_ENV s GET_health =
     (case health_check APP_ENV s of (d, s') \<Rightarrow> (\<lparr>status = 200, content = Health d\<rparr>, s'))"
| "app APP_ENV s GET_items =
     (case get_items s of (xs, s') \<Rightarrow> (\<lparr>status = 200, content = ItemList xs\<rparr>, s'))"
| "app APP_ENV s (POST_items item) =
     (case create_item s item of
        (Inl e, s') \<Rightarrow> (error_response e, s')
      | (Inr new_item, s') \<Rightarrow> (\<lparr>status = 201, content = ItemBody new_item\<rparr>, s'))"
| "app APP_ENV s (GET_item item_id) =
     (case get_item s item_id of
        (Inl e, s') \<Rightarrow> (error_response e, s')
      | (Inr item, s') \<Rightarrow> (\<lparr>status = 200, content = ItemBody item\<rparr>, s'))"
| "app APP_ENV s (DELETE_item item_id) =
     (case delete_item s item_id of
        (Inl e, s') \<Rightarrow> (error_response e, s')
      | (Inr _, s') \<Rightarrow> (\<lparr>status = 204, content = NoContent\<rparr>, s'))"

text \<open>A run of the service: the requests are served one after the other, each on
  the store its predecessor left.\<close>

fun serve :: "string \<Rightarrow> store \<Rightarrow> request list \<Rightarrow> response list \<times> store" where
  "serve APP_ENV s [] = ([], s)"
| "serve APP_ENV s (r # rs) =
     (case app APP_ENV s r of
        (resp, s') \<Rightarrow> (case serve APP_ENV s' rs of (resps, s'') \<Rightarrow> (resp # resps, s'')))"

definition run :: "string \<Rightarrow> store \<Rightarrow> request list \<Rightarrow> store" where
  "run APP_ENV s rs = snd (serve APP_ENV s rs)"

subsection \<open>Notions used in the statements\<close>

text \<open>The items that a run of accepted creates builds when the counter starts at \<open>n\<close>.\<close>

fun created :: "int \<Rightarrow> ItemCreate list \<Rightarrow> Item list" where
  "created n [] = []"
| "created n (c # cs) =
     \<lparr>Item.id = n, Item.name = ItemCreate.name c, Item.description = ItemCreate.description c\<rparr>
       # created (n + 1) cs"

text \<open>No two stored names agree after normalization.\<close>

definition names_unique :: "store \<Rightarrow> bool" where
  "names_unique s = distinct (map (\<lambda>it. normalize_name (Item.name it)) (items s))"

text \<open>The stored ids increase along the list and all lie below the counter.\<close>

definition ids_fresh :: "store \<Rightarrow> bool" where
  "ids_fresh s = (sorted_wrt (<) (map Item.id (items s))
                  \<and> (\<forall>it \<in> set (items s). Item.id it < next_id s))"

section \<open>Basic facts\<close>

lemmas string_defs = normalize_name_def strip_def lstrip_def rstrip_def lower_def
  lower_char_def isupper_def isspace_def

lemma ensure_unique_loop_eq:
  "ensure_unique_loop xs n =
     (if \<exists>it \<in> set xs. normalize_name (Item.name it) = n
      then Inl (HTTPException 400 ''Item with this name already exists'')
      else Inr ())"
  by (induction xs) auto

lemma find_item_loop_None: "find_item_loop xs i = None \<longleftrightarrow> i \<notin> Item.id ` set xs"
  by (induction xs) auto

lemma find_item_loop_Some:
  "find_item_loop xs i = Some it \<Longrightarrow>
     \<exists>pre post. xs = pre @ it # post \<and> Item.id it = i \<and> (\<forall>x \<in> set pre. Item.id x \<noteq> i)"
proof (induction xs)
  case Nil
  then show ?case by simp
next
  case (Cons x xs)
  show ?case
  proof (cases "Item.id x = i")
    case True
    with Cons.prems have "x = it" by simp
    with True have "x # xs = [] @ it # xs \<and> Item.id it = i \<and> (\<forall>y \<in> set []. Item.id y \<noteq> i)"
      by simp
    then show ?thesis by blast
  next
    case False
    with Cons.prems have "find_item_loop xs i = Some it" by simp
    from Cons.IH [OF this] obtain pre post where
      "xs = pre @ it # post" "Item.id it = i" "\<forall>y \<in> set pre. Item.id y \<noteq> i" by blast
    with False have "x # xs = (x # pre) @ it # post \<and> Item.id it = i
        \<and> (\<forall>y \<in> set (x # pre). Item.id y \<noteq> i)" by simp
    then show ?thesis by blast
  qed
qed

lemma find_item_loop_find: "find_item_loop xs i = List.find (\<lambda>it. Item.id it = i) xs"
  by (induction xs) auto

lemma remove1_first_match:
  "\<forall>x \<in> set pre. x \<noteq> it \<Longrightarrow> remove1 it (pre @ it # post) = pre @ post"
  by (induction pre) auto

lemma lower_char_of_char: "of_char (lower_char c) = (if isupper c then of_char c + 32 else (of_char c :: nat))"
  by (cases c) (auto simp: lower_char_def isupper_def)

lemma ensure_unique_name_eq:
  "ensure_unique_name s nm =
     (if \<exists>it \<in> set (items s). normalize_name (Item.name it) = normalize_name nm
      then Inl (HTTPException 400 ''Item with this name already exists'')
      else Inr ())"
  by (simp add: ensure_unique_name_def ensure_unique_loop_eq)

lemma create_item_taken:
  assumes "\<exists>it \<in> set (items s). normalize_name (Item.name it) = normalize_name (ItemCreate.name c)"
  shows "create_item s c = (Inl (HTTPException 400 ''Item with this name already exists''), s)"
  using assms by (simp add: create_item_def ensure_unique_name_eq)

lemma create_item_fresh:
  assumes "\<forall>it \<in> set (items s). normalize_name (Item.name it) \<noteq> normalize_name (ItemCreate.name c)"
  shows "create_item s c =
           (Inr \<lparr>Item.id = next_id s, Item.name = ItemCreate.name c,
                 Item.description = ItemCreate.description c\<rparr>,
            s\<lparr>items := items s @ [\<lparr>Item.id = next_id s, Item.name = ItemCreate.name c,
                                     Item.description = ItemCreate.description c\<rparr>],
              next_id := next_id s + 1\<rparr>)"
  using assms by (simp add: create_item_def ensure_unique_name_eq Let_def)

lemma length_created: "length (created n cs) = length cs"
  by (induction cs arbitrary: n) auto

lemma nth_created:
  "k < length cs \<Longrightarrow>
     created n cs ! k = \<lparr>Item.id = n + int k, Item.name = ItemCreate.name (cs ! k),
                          Item.description = ItemCreate.description (cs ! k)\<rparr>"
proof (induction cs arbitrary: n k)
  case Nil
  then show ?case by simp
next
  case (Cons c cs)
  show ?case
  proof (cases k)
    case 0
    then show ?thesis by simp
  next
    case (Suc j)
    with Cons.prems have "j < length cs" by simp
    from Cons.IH [OF this, of "n + 1"] Suc show ?thesis by simp
  qed
qed

lemma serve_creates:
  assumes "distinct (map (\<lambda>c. normalize_name (ItemCreate.name c)) cs)"
      and "\<forall>it \<in> set (items s). \<forall>c \<in> set cs.
             normalize_name (Item.name it) \<noteq> normalize_name (ItemCreate.name c)"
  shows "serve APP_ENV s (map POST_items cs) =
           (map (\<lambda>it. \<lparr>status = 201, content = ItemBody it\<rparr>) (created (next_id s) cs),
            s\<lparr>items := items s @ created (next_id s) cs,
              next_id := next_id s + int (length cs)\<rparr>)"
  using assms
proof (induction cs arbitrary: s)
  case Nil
  then show ?case by simp
next
  case (Cons c cs)
  let ?it = "\<lparr>Item.id = next_id s, Item.name = ItemCreate.name c,
               Item.description = ItemCreate.description c\<rparr>"
  let ?s' = "s\<lparr>items := items s @ [?it], next_id := next_id s + 1\<rparr>"
  from Cons.prems(2) have "\<forall>it \<in> set (items s).
      normalize_name (Item.name it) \<noteq> normalize_name (ItemCreate.name c)" by simp
  then have step: "create_item s c = (Inr ?it, ?s')" by (rule create_item_fresh)
  from Cons.prems(1) have d: "distinct (map (\<lambda>c. normalize_name (ItemCreate.name c)) cs)"
    and nc: "\<forall>c' \<in> set cs. normalize_name (ItemCreate.name c) \<noteq> normalize_name (ItemCreate.name c')"
    by auto
  from Cons.prems(2) nc have "\<forall>it \<in> set (items ?s'). \<forall>c \<in> set cs.
      normalize_name (Item.name it) \<noteq> normalize_name (ItemCreate.name c)" by auto
  from Cons.IH [OF d this] step show ?case by simp
qed

lemmas handler_defs = create_item_def get_item_def delete_item_def list_remove_def get_items_def
  health_check_def ensure_unique_name_def find_item_def error_response_def
  initial_store_def run_def Let_def

lemma find_item_None: "find_item s i = None \<longleftrightarrow> (\<forall>it \<in> set (items s). Item.id it \<noteq> i)"
  by (auto simp: find_item_def find_item_loop_None)

lemma find_item_Some:
  assumes "find_item s i = Some it"
  shows "\<exists>pre post. items s = pre @ it # post \<and> Item.id it = i
           \<and> (\<forall>x \<in> set pre. Item.id x \<noteq> i) \<and> remove1 it (items s) = pre @ post"
proof -
  from assms obtain pre post where
    split: "items s = pre @ it # post" and id: "Item.id it = i"
    and pre: "\<forall>x \<in> set pre. Item.id x \<noteq> i"
    unfolding find_item_def by (blast dest: find_item_loop_Some)
  from pre id have "\<forall>x \<in> set pre. x \<noteq> it" by auto
  then have "remove1 it (pre @ it # post) = pre @ post" by (rule remove1_first_match)
  with split id pre show ?thesis by auto
qed

lemma find_item_ex:
  assumes "\<exists>it \<in> set (items s). Item.id it = i"
  shows "\<exists>it. find_item s i = Some it"
proof (cases "find_item s i")
  case None
  with assms show ?thesis by (simp add: find_item_None)
next
  case (Some it)
  then show ?thesis by simp
qed

lemma serve_Cons_snd:
  "snd (serve APP_ENV s (r # rs)) = snd (serve APP_ENV (snd (app APP_ENV s r)) rs)"
  by (simp split: prod.splits)

lemma run_Nil: "run APP_ENV s [] = s"
  by (simp add: run_def)

lemma run_Cons: "run APP_ENV s (r # rs) = run APP_ENV (snd (app APP_ENV s r)) rs"
  unfolding run_def by (rule serve_Cons_snd)

lemma run_append: "run APP_ENV s (rs @ rs') = run APP_ENV (run APP_ENV s rs) rs'"
  by (induction rs arbitrary: s) (simp_all add: run_Nil run_Cons)

lemma app_GET_health: "snd (app APP_ENV s GET_health) = s"
  by (simp add: health_check_def)

lemma app_GET_items: "snd (app APP_ENV s GET_items) = s"
  by (simp add: get_items_def)

lemma app_GET_item: "snd (app APP_ENV s (GET_item i)) = s"
  by (simp add: get_item_def split: option.splits)

lemma app_POST_items:
  "snd (app APP_ENV s (POST_items c)) = snd (create_item s c)"
  by (simp split: prod.splits sum.splits)

lemma app_DELETE_item:
  "snd (app APP_ENV s (DELETE_item i)) = snd (delete_item s i)"
  by (simp split: prod.splits sum.splits)

lemma create_item_cases:
  obtains (dup) "create_item s c = (Inl (HTTPException 400 ''Item with this name already exists''), s)"
      and "\<exists>it \<in> set (items s). normalize_name (Item.name it) = normalize_name (ItemCreate.name c)"
    | (fresh) "create_item s c =
           (Inr \<lparr>Item.id = next_id s, Item.name = ItemCreate.name c,
                 Item.description = ItemCreate.description c\<rparr>,
            s\<lparr>items := items s @ [\<lparr>Item.id = next_id s, Item.name = ItemCreate.name c,
                                     Item.description = ItemCreate.description c\<rparr>],
              next_id := next_id s + 1\<rparr>)"
      and "\<forall>it \<in> set (items s). normalize_name (Item.name it) \<noteq> normalize_name (ItemCreate.name c)"
  using create_item_taken [of s c] create_item_fresh [of s c] by blast

lemma delete_item_cases:
  obtains (missing) "delete_item s i = (Inl (HTTPException 404 ''Item not found''), s)"
      and "\<forall>it \<in> set (items s). Item.id it \<noteq> i"
    | (found) pre it post where "delete_item s i = (Inr (), s\<lparr>items := pre @ post\<rparr>)"
      and "items s = pre @ it # post" and "Item.id it = i" and "\<forall>x \<in> set pre. Item.id x \<noteq> i"
proof (cases "find_item s i")
  case None
  then have "delete_item s i = (Inl (HTTPException 404 ''Item not found''), s)"
    by (simp add: delete_item_def)
  with None show ?thesis by (auto simp: find_item_None intro: missing)
next
  case (Some it)
  from find_item_Some [OF this] obtain pre post where
    split: "items s = pre @ it # post" and id: "Item.id it = i"
    and pre: "\<forall>x \<in> set pre. Item.id x \<noteq> i"
    and rem: "remove1 it (items s) = pre @ post" by blast
  from split have "it \<in> set (items s)" by simp
  with Some rem have "delete_item s i = (Inr (), s\<lparr>items := pre @ post\<rparr>)"
    by (simp add: delete_item_def list_remove_def)
  then show ?thesis using split id pre by (rule found)
qed

text \<open>The \<^verbatim>\<open>ValueError\<close> branch of \<^verbatim>\<open>items.remove\<close> is never taken: the item handed to
  it was just found in the list. So no request is answered with a status other than
  the five below.\<close>

lemma delete_item_no_ValueError: "fst (delete_item s i) \<noteq> Inl ValueError"
  by (cases s i rule: delete_item_cases) simp_all

lemma app_status: "status (fst (app APP_ENV s r)) \<in> {200, 201, 204, 400, 404}"
proof (cases r)
  case GET_health
  then show ?thesis by (simp add: health_check_def)
next
  case GET_items
  then show ?thesis by (simp add: get_items_def)
next
  case (POST_items c)
  then show ?thesis
    by (cases s c rule: create_item_cases) (simp_all add: error_response_def)
next
  case (GET_item i)
  then show ?thesis
    by (simp add: get_item_def error_response_def split: option.splits)
next
  case (DELETE_item i)
  then show ?thesis
    by (cases s i rule: delete_item_cases) (simp_all add: error_response_def)
qed

lemma create_item_names_unique:
  assumes "names_unique s" shows "names_unique (snd (create_item s c))"
proof (cases s c rule: create_item_cases)
  case dup
  with assms show ?thesis by simp
next
  case fresh
  with assms show ?thesis by (auto simp: names_unique_def)
qed

lemma delete_item_names_unique:
  assumes "names_unique s" shows "names_unique (snd (delete_item s i))"
proof (cases s i rule: delete_item_cases)
  case missing
  with assms show ?thesis by simp
next
  case (found pre it post)
  with assms show ?thesis by (auto simp: names_unique_def)
qed

lemma app_names_unique:
  "names_unique s \<Longrightarrow> names_unique (snd (app APP_ENV s r))"
  by (cases r)
     (simp_all only: app_GET_health app_GET_items app_GET_item app_POST_items
        app_DELETE_item create_item_names_unique delete_item_names_unique)

lemma run_names_unique:
  "names_unique s \<Longrightarrow> names_unique (run APP_ENV s rs)"
  by (induction rs arbitrary: s) (simp_all add: run_Nil run_Cons app_names_unique)

lemma create_item_ids_fresh:
  assumes "ids_fresh s" shows "ids_fresh (snd (create_item s c))"
proof (cases s c rule: create_item_cases)
  case dup
  with assms show ?thesis by simp
next
  case fresh
  with assms show ?thesis by (auto simp: ids_fresh_def sorted_wrt_append)
qed

lemma delete_item_ids_fresh:
  assumes "ids_fresh s" shows "ids_fresh (snd (delete_item s i))"
proof (cases s i rule: delete_item_cases)
  case missing
  with assms show ?thesis by simp
next
  case (found pre it post)
  with assms show ?thesis by (auto simp: ids_fresh_def sorted_wrt_append)
qed

lemma app_ids_fresh:
  "ids_fresh s \<Longrightarrow> ids_fresh (snd (app APP_ENV s r))"
  by (cases r)
     (simp_all only: app_GET_health app_GET_items app_GET_item app_POST_items
        app_DELETE_item create_item_ids_fresh delete_item_ids_fresh)

lemma run_ids_fresh:
  "ids_fresh s \<Longrightarrow> ids_fresh (run APP_ENV s rs)"
  by (induction rs arbitrary: s) (simp_all add: run_Nil run_Cons app_ids_fresh)

lemma names_unique_initial: "names_unique initial_store"
  by (simp add: names_unique_def initial_store_def)

lemma ids_fresh_initial: "ids_fresh initial_store"
  by (simp add: ids_fresh_def initial_store_def)

lemma app_next_id_mono: "next_id s \<le> next_id (snd (app APP_ENV s r))"
proof (cases r)
  case (POST_items c)
  show ?thesis unfolding POST_items app_POST_items
    by (cases s c rule: create_item_cases) simp_all
next
  case (DELETE_item i)
  show ?thesis unfolding DELETE_item app_DELETE_item
    by (cases s i rule: delete_item_cases) simp_all
qed (simp_all only: app_GET_health app_GET_items app_GET_item order_refl)

lemma run_next_id_mono: "next_id s \<le> next_id (run APP_ENV s rs)"
proof (induction rs arbitrary: s)
  case Nil
  show ?case by (simp add: run_Nil)
next
  case (Cons r rs)
  have "next_id s \<le> next_id (snd (app APP_ENV s r))" by (rule app_next_id_mono)
  also have "\<dots> \<le> next_id (run APP_ENV (snd (app APP_ENV s r)) rs)" by (rule Cons.IH)
  finally show ?case by (simp add: run_Cons)
qed

lemma app_absent:
  assumes "n < next_id s" and "\<forall>x \<in> set (items s). Item.id x \<noteq> n"
  shows "n < next_id (snd (app APP_ENV s r))
       \<and> (\<forall>x \<in> set (items (snd (app APP_ENV s r))). Item.id x \<noteq> n)"
proof (cases r)
  case (POST_items c)
  show ?thesis unfolding POST_items app_POST_items
    using assms by (cases s c rule: create_item_cases) auto
next
  case (DELETE_item i)
  show ?thesis unfolding DELETE_item app_DELETE_item
    using assms by (cases s i rule: delete_item_cases) auto
qed (use assms in \<open>simp_all only: app_GET_health app_GET_items app_GET_item simp_thms\<close>)

lemma run_absent:
  assumes "n < next_id s" and "\<forall>x \<in> set (items s). Item.id x \<noteq> n"
  shows "n < next_id (run APP_ENV s rs)
       \<and> (\<forall>x \<in> set (items (run APP_ENV s rs)). Item.id x \<noteq> n)"
  using assms
proof (induction rs arbitrary: s)
  case Nil
  then show ?case by (simp add: run_Nil)
next
  case (Cons r rs)
  from app_absent [OF Cons.prems, of APP_ENV r] Cons.IH [of "snd (app APP_ENV s r)"]
  show ?case by (simp add: run_Cons)
qed

lemma get_item_missing:
  assumes "\<forall>it \<in> set (items s). Item.id it \<noteq> i"
  shows "get_item s i = (Inl (HTTPException 404 ''Item not found''), s)"
  using assms by (simp add: get_item_def find_item_None [symmetric])

lemma delete_item_unique:
  assumes "ids_fresh s" and "delete_item s i = (Inr (), s')"
  shows "\<exists>pre it post. items s = pre @ it # post \<and> Item.id it = i
           \<and> (\<forall>x \<in> set (pre @ post). Item.id x \<noteq> i)
           \<and> s' = s\<lparr>items := pre @ post\<rparr>"
proof (cases s i rule: delete_item_cases)
  case missing
  with assms(2) show ?thesis by simp
next
  case (found pre it post)
  from assms(1) found(2) have "sorted_wrt (<) (map Item.id (pre @ it # post))"
    by (simp add: ids_fresh_def)
  then have "\<forall>x \<in> set post. Item.id it < Item.id x"
    by (simp add: sorted_wrt_append)
  with found(3,4) have "\<forall>x \<in> set (pre @ post). Item.id x \<noteq> i" by auto
  moreover from found(1) assms(2) have "s' = s\<lparr>items := pre @ post\<rparr>" by simp
  ultimately show ?thesis using found(2,3) by blast
qed

lemma rstrip_decomp: "l = rstrip l @ rev (takeWhile isspace (rev l))"
proof -
  have "rev (takeWhile isspace (rev l) @ dropWhile isspace (rev l)) = rev (rev l)"
    by (simp only: takeWhile_dropWhile_id)
  then show ?thesis by (simp only: rev_append rev_rev_ident rstrip_def)
qed

lemma strip_decomp:
  "\<exists>pre post. nm = pre @ strip nm @ post
     \<and> (\<forall>ch \<in> set pre. isspace ch) \<and> (\<forall>ch \<in> set post. isspace ch)"
proof -
  let ?pre = "takeWhile isspace nm" and ?post = "rev (takeWhile isspace (rev (lstrip nm)))"
  have "lstrip nm = strip nm @ ?post"
    unfolding strip_def by (rule rstrip_decomp)
  moreover have "nm = ?pre @ lstrip nm" by (simp add: lstrip_def)
  ultimately have "nm = ?pre @ strip nm @ ?post" by simp
  moreover have "\<forall>ch \<in> set ?pre. isspace ch" by (auto dest: set_takeWhileD)
  moreover have "\<forall>ch \<in> set ?post. isspace ch" by (auto dest: set_takeWhileD)
  ultimately show ?thesis by blast
qed

lemma rstrip_last: "rstrip l \<noteq> [] \<Longrightarrow> \<not> isspace (last (rstrip l))"
  by (simp add: rstrip_def last_rev hd_dropWhile)

lemma rstrip_hd:
  assumes "rstrip l \<noteq> []" shows "hd (rstrip l) = hd l"
proof -
  have "hd l = hd (rstrip l @ rev (takeWhile isspace (rev l)))"
    by (rule arg_cong [OF rstrip_decomp])
  with assms show ?thesis by simp
qed

lemma strip_ends:
  assumes "strip nm \<noteq> []"
  shows "\<not> isspace (hd (strip nm)) \<and> \<not> isspace (last (strip nm))"
proof -
  from assms have ne: "rstrip (lstrip nm) \<noteq> []" by (simp add: strip_def)
  then have "lstrip nm \<noteq> []" by (auto simp: rstrip_def)
  then have "\<not> isspace (hd (lstrip nm))" by (simp add: lstrip_def hd_dropWhile)
  with rstrip_hd [OF ne] rstrip_last [OF ne] show ?thesis by (simp add: strip_def)
qed

lemma strip_blank:
  assumes "\<forall>ch \<in> set nm. isspace ch" shows "strip nm = []"
proof -
  from assms have "lstrip nm = []" by (simp add: lstrip_def)
  then show ?thesis by (simp add: strip_def rstrip_def)
qed

lemma normalize_name_blank:
  "\<forall>ch \<in> set nm. isspace ch \<Longrightarrow> normalize_name nm = []"
  by (simp add: normalize_name_def strip_blank lower_def)

lemma create_item_name_taken:
  "\<exists>it \<in> set (items (snd (create_item s c))).
     normalize_name (Item.name it) = normalize_name (ItemCreate.name c)"
  by (cases s c rule: create_item_cases) auto

lemma create_item_twice:
  assumes "normalize_name (ItemCreate.name c') = normalize_name (ItemCreate.name c)"
  shows "create_item (snd (create_item s c)) c' =
           (Inl (HTTPException 400 ''Item with this name already exists''),
            snd (create_item s c))"
  using create_item_name_taken [of s c] assms by (simp add: create_item_taken)

section \<open>Identifiers\<close>

text \<open>
  Claim C1. Starting from the empty store, a sequence of creates whose names are
  pairwise different after normalization succeeds throughout: there are as many
  responses as requests, the \<open>k\<close>-th one (counting from 0) has status 201 and
  carries the item with id \<open>k + 1\<close> and the submitted name and description; the
  store then holds exactly these items in this order, and the counter is one above
  their number.
\<close>

theorem create_ids_sequential:
  assumes "distinct (map (\<lambda>c. normalize_name (ItemCreate.name c)) cs)"
  shows "length (fst (serve APP_ENV initial_store (map POST_items cs))) = length cs
       \<and> (\<forall>k < length cs.
            fst (serve APP_ENV initial_store (map POST_items cs)) ! k =
              \<lparr>status = 201,
               content = ItemBody \<lparr>Item.id = int k + 1, Item.name = ItemCreate.name (cs ! k),
                                   Item.description = ItemCreate.description (cs ! k)\<rparr>\<rparr>)
       \<and> length (items (run APP_ENV initial_store (map POST_items cs))) = length cs
       \<and> (\<forall>k < length cs.
            items (run APP_ENV initial_store (map POST_items cs)) ! k =
              \<lparr>Item.id = int k + 1, Item.name = ItemCreate.name (cs ! k),
               Item.description = ItemCreate.description (cs ! k)\<rparr>)
       \<and> next_id (run APP_ENV initial_store (map POST_items cs)) = int (length cs) + 1"
proof -
  have "\<forall>it \<in> set (items initial_store). \<forall>c \<in> set cs.
      normalize_name (Item.name it) \<noteq> normalize_name (ItemCreate.name c)"
    by (simp add: initial_store_def)
  from serve_creates [OF assms this, of APP_ENV]
  have "serve APP_ENV initial_store (map POST_items cs) =
      (map (\<lambda>it. \<lparr>status = 201, content = ItemBody it\<rparr>) (created 1 cs),
       \<lparr>items = created 1 cs, next_id = 1 + int (length cs)\<rparr>)"
    by (simp add: initial_store_def)
  then show ?thesis
    by (simp add: run_def length_created nth_created add.commute)
qed

theorem create_ids_sequential_witness:
  "distinct (map (\<lambda>c. normalize_name (ItemCreate.name c))
      [\<lparr>ItemCreate.name = ''Pen'', ItemCreate.description = None\<rparr>,
       \<lparr>ItemCreate.name = '' Ink '', ItemCreate.description = Some ''blue''\<rparr>])
   \<and> fst (serve ''dev'' initial_store
        [POST_items \<lparr>ItemCreate.name = ''Pen'', ItemCreate.description = None\<rparr>,
         POST_items \<lparr>ItemCreate.name = '' Ink '', ItemCreate.description = Some ''blue''\<rparr>])
      = [\<lparr>status = 201,
          content = ItemBody \<lparr>Item.id = 1, Item.name = ''Pen'', Item.description = None\<rparr>\<rparr>,
         \<lparr>status = 201,
          content = ItemBody \<lparr>Item.id = 2, Item.name = '' Ink '', Item.description = Some ''blue''\<rparr>\<rparr>]"
proof -
  let ?cs = "[\<lparr>ItemCreate.name = ''Pen'', ItemCreate.description = None\<rparr>,
       \<lparr>ItemCreate.name = '' Ink '', ItemCreate.description = Some ''blue''\<rparr>]"
  have d: "distinct (map (\<lambda>c. normalize_name (ItemCreate.name c)) ?cs)"
    by (simp add: string_defs)
  from create_ids_sequential [OF d, of "''dev''"]
  have len: "length (fst (serve ''dev'' initial_store (map POST_items ?cs))) = 2"
    and nth: "\<forall>k < 2. fst (serve ''dev'' initial_store (map POST_items ?cs)) ! k =
              \<lparr>status = 201,
               content = ItemBody \<lparr>Item.id = int k + 1, Item.name = ItemCreate.name (?cs ! k),
                                   Item.description = ItemCreate.description (?cs ! k)\<rparr>\<rparr>"
    by simp_all
  from nth have "fst (serve ''dev'' initial_store (map POST_items ?cs)) ! 0 =
      \<lparr>status = 201,
       content = ItemBody \<lparr>Item.id = 1, Item.name = ''Pen'', Item.description = None\<rparr>\<rparr>"
    and "fst (serve ''dev'' initial_store (map POST_items ?cs)) ! 1 =
      \<lparr>status = 201,
       content = ItemBody \<lparr>Item.id = 2, Item.name = '' Ink '', Item.description = Some ''blue''\<rparr>\<rparr>"
    by simp_all
  with len have "fst (serve ''dev'' initial_store (map POST_items ?cs)) =
      [\<lparr>status = 201,
          content = ItemBody \<lparr>Item.id = 1, Item.name = ''Pen'', Item.description = None\<rparr>\<rparr>,
         \<lparr>status = 201,
          content = ItemBody \<lparr>Item.id = 2, Item.name = '' Ink '', Item.description = Some ''blue''\<rparr>\<rparr>]"
    by (auto simp: nth_equalityI length_Suc_conv numeral_2_eq_2)
  with d show ?thesis by simp
qed

section \<open>Unique names\<close>

text \<open>
  Claim C2. After any sequence of requests served from the empty store, no two
  stored names agree after normalization (trim, then lower case); and each single
  request, whichever of the five it is, takes a store with this property to a
  store with this property.
\<close>

theorem names_unique_invariant:
  "names_unique (run APP_ENV initial_store rs)
   \<and> (names_unique s \<longrightarrow> names_unique (snd (app APP_ENV s r)))"
  by (simp add: run_names_unique names_unique_initial app_names_unique)

theorem names_unique_invariant_witness:
  "names_unique (run ''dev'' initial_store
      [POST_items \<lparr>ItemCreate.name = ''Pen'', ItemCreate.description = None\<rparr>,
       POST_items \<lparr>ItemCreate.name = ''pen'', ItemCreate.description = None\<rparr>,
       DELETE_item 1, GET_items])
   \<and> names_unique \<lparr>items = [\<lparr>Item.id = 1, Item.name = ''Pen'', Item.description = None\<rparr>],
                    next_id = 2\<rparr>
   \<and> names_unique (snd (app ''dev''
        \<lparr>items = [\<lparr>Item.id = 1, Item.name = ''Pen'', Item.description = None\<rparr>], next_id = 2\<rparr>
        (POST_items \<lparr>ItemCreate.name = '' PEN'', ItemCreate.description = None\<rparr>)))"
proof -
  have "names_unique \<lparr>items = [\<lparr>Item.id = 1, Item.name = ''Pen'', Item.description = None\<rparr>],
                      next_id = 2\<rparr>"
    by (simp add: names_unique_def)
  with names_unique_invariant
         [of "''dev''"
             "[POST_items \<lparr>ItemCreate.name = ''Pen'', ItemCreate.description = None\<rparr>,
               POST_items \<lparr>ItemCreate.name = ''pen'', ItemCreate.description = None\<rparr>,
               DELETE_item 1, GET_items]"
             "\<lparr>items = [\<lparr>Item.id = 1, Item.name = ''Pen'', Item.description = None\<rparr>],
               next_id = 2\<rparr>"
             "POST_items \<lparr>ItemCreate.name = '' PEN'', ItemCreate.description = None\<rparr>"]
  show ?thesis by blast
qed

section \<open>Creating an item\<close>

text \<open>
  Claim C3. A create is answered with the error 400 and the detail
  "Item with this name already exists" exactly when some stored item has the same
  normalized name as the candidate. In that case the store (list and counter) is
  returned as it was. Otherwise the response is 201, exactly one item is appended,
  built from the counter and the submitted fields, and the counter grows by 1.
\<close>

theorem create_item_duplicate_iff:
  "(fst (create_item s c) = Inl (HTTPException 400 ''Item with this name already exists'')
      \<longleftrightarrow> (\<exists>it \<in> set (items s).
             normalize_name (Item.name it) = normalize_name (ItemCreate.name c)))
   \<and> ((\<exists>it \<in> set (items s).
          normalize_name (Item.name it) = normalize_name (ItemCreate.name c)) \<longrightarrow>
        create_item s c = (Inl (HTTPException 400 ''Item with this name already exists''), s)
      \<and> app APP_ENV s (POST_items c) =
          (\<lparr>status = 400, content = Detail ''Item with this name already exists''\<rparr>, s))
   \<and> (\<not> (\<exists>it \<in> set (items s).
            normalize_name (Item.name it) = normalize_name (ItemCreate.name c)) \<longrightarrow>
        create_item s c =
          (Inr \<lparr>Item.id = next_id s, Item.name = ItemCreate.name c,
                Item.description = ItemCreate.description c\<rparr>,
           s\<lparr>items := items s @ [\<lparr>Item.id = next_id s, Item.name = ItemCreate.name c,
                                    Item.description = ItemCreate.description c\<rparr>],
             next_id := next_id s + 1\<rparr>)
      \<and> app APP_ENV s (POST_items c) =
          (\<lparr>status = 201,
            content = ItemBody \<lparr>Item.id = next_id s, Item.name = ItemCreate.name c,
                                Item.description = ItemCreate.description c\<rparr>\<rparr>,
           s\<lparr>items := items s @ [\<lparr>Item.id = next_id s, Item.name = ItemCreate.name c,
                                    Item.description = ItemCreate.description c\<rparr>],
             next_id := next_id s + 1\<rparr>))"
proof (cases "\<exists>it \<in> set (items s).
    normalize_name (Item.name it) = normalize_name (ItemCreate.name c)")
  case True
  then have "create_item s c =
      (Inl (HTTPException 400 ''Item with this name already exists''), s)"
    by (rule create_item_taken)
  with True show ?thesis by (simp add: error_response_def)
next
  case False
  then have "create_item s c =
      (Inr \<lparr>Item.id = next_id s, Item.name = ItemCreate.name c,
            Item.description = ItemCreate.description c\<rparr>,
       s\<lparr>items := items s @ [\<lparr>Item.id = next_id s, Item.name = ItemCreate.name c,
                                Item.description = ItemCreate.description c\<rparr>],
         next_id := next_id s + 1\<rparr>)"
    using create_item_fresh [of s c] by simp
  with False show ?thesis by simp
qed

theorem create_item_duplicate_iff_witness:
  "(\<exists>it \<in> set [\<lparr>Item.id = 1, Item.name = ''Pen'', Item.description = None\<rparr>].
       normalize_name (Item.name it) = normalize_name ''pen'')
   \<and> create_item \<lparr>items = [\<lparr>Item.id = 1, Item.name = ''Pen'', Item.description = None\<rparr>],
                   next_id = 2\<rparr>
        \<lparr>ItemCreate.name = ''pen'', ItemCreate.description = None\<rparr>
      = (Inl (HTTPException 400 ''Item with this name already exists''),
         \<lparr>items = [\<lparr>Item.id = 1, Item.name = ''Pen'', Item.description = None\<rparr>], next_id = 2\<rparr>)
   \<and> \<not> (\<exists>it \<in> set [\<lparr>Item.id = 1, Item.name = ''Pen'', Item.description = None\<rparr>].
       normalize_name (Item.name it) = normalize_name ''Ink'')
   \<and> create_item \<lparr>items = [\<lparr>Item.id = 1, Item.name = ''Pen'', Item.description = None\<rparr>],
                   next_id = 2\<rparr>
        \<lparr>ItemCreate.name = ''Ink'', ItemCreate.description = Some ''blue''\<rparr>
      = (Inr \<lparr>Item.id = 2, Item.name = ''Ink'', Item.description = Some ''blue''\<rparr>,
         \<lparr>items = [\<lparr>Item.id = 1, Item.name = ''Pen'', Item.description = None\<rparr>,
                   \<lparr>Item.id = 2, Item.name = ''Ink'', Item.description = Some ''blue''\<rparr>],
          next_id = 3\<rparr>)"
  using create_item_duplicate_iff
          [of "\<lparr>items = [\<lparr>Item.id = 1, Item.name = ''Pen'', Item.description = None\<rparr>],
                next_id = 2\<rparr>"
              "\<lparr>ItemCreate.name = ''pen'', ItemCreate.description = None\<rparr>" "''dev''"]
        create_item_duplicate_iff
          [of "\<lparr>items = [\<lparr>Item.id = 1, Item.name = ''Pen'', Item.description = None\<rparr>],
                next_id = 2\<rparr>"
              "\<lparr>ItemCreate.name = ''Ink'', ItemCreate.description = Some ''blue''\<rparr>" "''dev''"]
  by (simp add: string_defs)

section \<open>Normalization\<close>

text \<open>
  Claim C4. The normalized name is the lower-cased middle part of the name, where
  the name splits into a run of white space, a middle part that neither starts nor
  ends with white space, and a run of white space; lower-casing adds 32 to the
  code point of an upper-case letter and leaves every other character. The
  created item carries the submitted name unchanged, and it is this item that is
  appended to the list. From any store, a create of " widget " followed by a
  create of "Widget" answers the second request with 400 and the duplicate
  detail.
\<close>

theorem normalize_name_trim_lower:
  "(\<exists>pre mid post. nm = pre @ mid @ post
      \<and> (\<forall>ch \<in> set pre. isspace ch) \<and> (\<forall>ch \<in> set post. isspace ch)
      \<and> (mid \<noteq> [] \<longrightarrow> \<not> isspace (hd mid) \<and> \<not> isspace (last mid))
      \<and> normalize_name nm = map lower_char mid)
   \<and> (\<forall>ch. of_char (lower_char ch) =
             (if isupper ch then of_char ch + 32 else (of_char ch :: nat)))
   \<and> (\<forall>it s'. create_item s c = (Inr it, s') \<longrightarrow>
         Item.name it = ItemCreate.name c \<and> items s' = items s @ [it])
   \<and> fst (app APP_ENV
            (snd (app APP_ENV s
               (POST_items \<lparr>ItemCreate.name = '' widget '', ItemCreate.description = d\<rparr>)))
            (POST_items \<lparr>ItemCreate.name = ''Widget'', ItemCreate.description = d'\<rparr>))
       = \<lparr>status = 400, content = Detail ''Item with this name already exists''\<rparr>"
proof (intro conjI)
  from strip_decomp [of nm] obtain pre post where
    "nm = pre @ strip nm @ post" "\<forall>ch \<in> set pre. isspace ch" "\<forall>ch \<in> set post. isspace ch"
    by blast
  moreover have "strip nm \<noteq> [] \<longrightarrow> \<not> isspace (hd (strip nm)) \<and> \<not> isspace (last (strip nm))"
    by (simp add: strip_ends)
  moreover have "normalize_name nm = map lower_char (strip nm)"
    by (simp add: normalize_name_def lower_def)
  ultimately show "\<exists>pre mid post. nm = pre @ mid @ post
      \<and> (\<forall>ch \<in> set pre. isspace ch) \<and> (\<forall>ch \<in> set post. isspace ch)
      \<and> (mid \<noteq> [] \<longrightarrow> \<not> isspace (hd mid) \<and> \<not> isspace (last mid))
      \<and> normalize_name nm = map lower_char mid" by blast
next
  show "\<forall>ch. of_char (lower_char ch) =
             (if isupper ch then of_char ch + 32 else (of_char ch :: nat))"
    by (simp add: lower_char_of_char)
next
  show "\<forall>it s'. create_item s c = (Inr it, s') \<longrightarrow>
         Item.name it = ItemCreate.name c \<and> items s' = items s @ [it]"
    by (cases s c rule: create_item_cases) auto
next
  let ?w1 = "\<lparr>ItemCreate.name = '' widget '', ItemCreate.description = d\<rparr>"
  let ?w2 = "\<lparr>ItemCreate.name = ''Widget'', ItemCreate.description = d'\<rparr>"
  have "normalize_name (ItemCreate.name ?w2) = normalize_name (ItemCreate.name ?w1)"
    by (simp add: string_defs)
  then have "create_item (snd (create_item s ?w1)) ?w2 =
      (Inl (HTTPException 400 ''Item with this name already exists''), snd (create_item s ?w1))"
    by (rule create_item_twice)
  then show "fst (app APP_ENV (snd (app APP_ENV s (POST_items ?w1))) (POST_items ?w2))
       = \<lparr>status = 400, content = Detail ''Item with this name already exists''\<rparr>"
    unfolding app_POST_items by (simp add: error_response_def)
qed

theorem normalize_name_trim_lower_witness:
  "''  Widget '' = ''  '' @ ''Widget'' @ '' ''
   \<and> list_all isspace ''  '' \<and> list_all isspace '' ''
   \<and> \<not> isspace (hd ''Widget'') \<and> \<not> isspace (last ''Widget'')
   \<and> normalize_name ''  Widget '' = map lower_char ''Widget''
   \<and> map lower_char ''Widget'' = ''widget''
   \<and> create_item initial_store
        \<lparr>ItemCreate.name = ''  Widget '', ItemCreate.description = None\<rparr>
      = (Inr \<lparr>Item.id = 1, Item.name = ''  Widget '', Item.description = None\<rparr>,
         \<lparr>items = [\<lparr>Item.id = 1, Item.name = ''  Widget '', Item.description = None\<rparr>],
          next_id = 2\<rparr>)
   \<and> Item.name \<lparr>Item.id = 1, Item.name = ''  Widget '', Item.description = None\<rparr>
      = ItemCreate.name \<lparr>ItemCreate.name = ''  Widget '', ItemCreate.description = None\<rparr>
   \<and> items \<lparr>items = [\<lparr>Item.id = 1, Item.name = ''  Widget '', Item.description = None\<rparr>],
             next_id = 2\<rparr>
      = items initial_store
        @ [\<lparr>Item.id = 1, Item.name = ''  Widget '', Item.description = None\<rparr>]"
proof -
  let ?c = "\<lparr>ItemCreate.name = ''  Widget '', ItemCreate.description = None\<rparr>"
  let ?it = "\<lparr>Item.id = 1, Item.name = ''  Widget '', Item.description = None\<rparr>"
  let ?s' = "\<lparr>items = [?it], next_id = 2\<rparr>"
  have step: "create_item initial_store ?c = (Inr ?it, ?s')"
    by (simp add: handler_defs)
  from normalize_name_trim_lower [of "''  Widget ''" initial_store ?c "''dev''" None None]
  have "create_item initial_store ?c = (Inr ?it, ?s') \<longrightarrow>
      Item.name ?it = ItemCreate.name ?c \<and> items ?s' = items initial_store @ [?it]"
    by blast
  with step have "Item.name ?it = ItemCreate.name ?c"
    and "items ?s' = items initial_store @ [?it]" by blast+
  moreover have "''  Widget '' = ''  '' @ ''Widget'' @ '' ''" by simp
  moreover have "list_all isspace ''  '' \<and> list_all isspace '' ''
      \<and> \<not> isspace (hd ''Widget'') \<and> \<not> isspace (last ''Widget'')"
    by (simp add: isspace_def)
  moreover have "normalize_name ''  Widget '' = map lower_char ''Widget''"
    by (simp add: string_defs)
  moreover have "map lower_char ''Widget'' = ''widget''"
    by (simp add: string_defs)
  ultimately show ?thesis using step by blast
qed

section \<open>Reading an item\<close>

text \<open>
  Claim C5. When no stored item has the requested id, get-by-id answers 404 with the
  detail "Item not found"; when some item has it, the answer is 200 with the first
  such item of the list (no item before it has the id). The store is returned
  unchanged in both cases.
\<close>

theorem get_item_first_match:
  "((\<forall>it \<in> set (items s). Item.id it \<noteq> i) \<longrightarrow>
       get_item s i = (Inl (HTTPException 404 ''Item not found''), s)
     \<and> app APP_ENV s (GET_item i) = (\<lparr>status = 404, content = Detail ''Item not found''\<rparr>, s))
   \<and> ((\<exists>it \<in> set (items s). Item.id it = i) \<longrightarrow>
       (\<exists>pre it post. items s = pre @ it # post \<and> Item.id it = i
          \<and> (\<forall>x \<in> set pre. Item.id x \<noteq> i)
          \<and> get_item s i = (Inr it, s)
          \<and> app APP_ENV s (GET_item i) = (\<lparr>status = 200, content = ItemBody it\<rparr>, s)))"
proof (intro conjI impI)
  assume "\<forall>it \<in> set (items s). Item.id it \<noteq> i"
  then show "get_item s i = (Inl (HTTPException 404 ''Item not found''), s)"
    by (rule get_item_missing)
  then show "app APP_ENV s (GET_item i) =
      (\<lparr>status = 404, content = Detail ''Item not found''\<rparr>, s)"
    by (simp add: error_response_def)
next
  assume "\<exists>it \<in> set (items s). Item.id it = i"
  then have "\<exists>it. find_item s i = Some it" by (rule find_item_ex)
  then obtain it where found: "find_item s i = Some it" ..
  from find_item_Some [OF this] obtain pre post where
    "items s = pre @ it # post" "Item.id it = i" "\<forall>x \<in> set pre. Item.id x \<noteq> i" by blast
  moreover from found have "get_item s i = (Inr it, s)" by (simp add: get_item_def)
  moreover from this have "app APP_ENV s (GET_item i) =
      (\<lparr>status = 200, content = ItemBody it\<rparr>, s)" by simp
  ultimately show "\<exists>pre it post. items s = pre @ it # post \<and> Item.id it = i
          \<and> (\<forall>x \<in> set pre. Item.id x \<noteq> i)
          \<and> get_item s i = (Inr it, s)
          \<and> app APP_ENV s (GET_item i) = (\<lparr>status = 200, content = ItemBody it\<rparr>, s)"
    by blast
qed

theorem get_item_first_match_witness:
  "list_all (\<lambda>it. Item.id it \<noteq> 7)
      [\<lparr>Item.id = 1, Item.name = ''Pen'', Item.description = None\<rparr>,
       \<lparr>Item.id = 2, Item.name = ''Ink'', Item.description = Some ''blue''\<rparr>]
   \<and> get_item \<lparr>items = [\<lparr>Item.id = 1, Item.name = ''Pen'', Item.description = None\<rparr>,
                         \<lparr>Item.id = 2, Item.name = ''Ink'', Item.description = Some ''blue''\<rparr>],
                next_id = 3\<rparr> 7
      = (Inl (HTTPException 404 ''Item not found''),
         \<lparr>items = [\<lparr>Item.id = 1, Item.name = ''Pen'', Item.description = None\<rparr>,
                   \<lparr>Item.id = 2, Item.name = ''Ink'', Item.description = Some ''blue''\<rparr>],
          next_id = 3\<rparr>)
   \<and> (\<exists>it \<in> set [\<lparr>Item.id = 1, Item.name = ''Pen'', Item.description = None\<rparr>,
                   \<lparr>Item.id = 2, Item.name = ''Ink'', Item.description = Some ''blue''\<rparr>].
       Item.id it = 2)
   \<and> app ''dev'' \<lparr>items = [\<lparr>Item.id = 1, Item.name = ''Pen'', Item.description = None\<rparr>,
                         \<lparr>Item.id = 2, Item.name = ''Ink'', Item.description = Some ''blue''\<rparr>],
                next_id = 3\<rparr> (GET_item 2)
      = (\<lparr>status = 200,
          content = ItemBody \<lparr>Item.id = 2, Item.name = ''Ink'', Item.description = Some ''blue''\<rparr>\<rparr>,
         \<lparr>items = [\<lparr>Item.id = 1, Item.name = ''Pen'', Item.description = None\<rparr>,
                   \<lparr>Item.id = 2, Item.name = ''Ink'', Item.description = Some ''blue''\<rparr>],
          next_id = 3\<rparr>)"
  using get_item_first_match
          [of "\<lparr>items = [\<lparr>Item.id = 1, Item.name = ''Pen'', Item.description = None\<rparr>,
                         \<lparr>Item.id = 2, Item.name = ''Ink'', Item.description = Some ''blue''\<rparr>],
                next_id = 3\<rparr>" 7 "''dev''"]
        get_item_first_match
          [of "\<lparr>items = [\<lparr>Item.id = 1, Item.name = ''Pen'', Item.description = None\<rparr>,
                         \<lparr>Item.id = 2, Item.name = ''Ink'', Item.description = Some ''blue''\<rparr>],
                next_id = 3\<rparr>" 2 "''dev''"]
  by (simp add: handler_defs)

section \<open>Deleting an item\<close>

text \<open>
  Claim C6. A delete of an id that no stored item has is answered with 404 and the
  detail "Item not found", and the store (list and counter) is returned unchanged;
  in particular so for id 9999 on the empty store.
\<close>

theorem delete_item_missing:
  "((\<forall>it \<in> set (items s). Item.id it \<noteq> i) \<longrightarrow>
       delete_item s i = (Inl (HTTPException 404 ''Item not found''), s)
     \<and> app APP_ENV s (DELETE_item i) =
         (\<lparr>status = 404, content = Detail ''Item not found''\<rparr>, s))
   \<and> app APP_ENV initial_store (DELETE_item 9999) =
         (\<lparr>status = 404, content = Detail ''Item not found''\<rparr>, initial_store)"
proof -
  have gen: "delete_item s i = (Inl (HTTPException 404 ''Item not found''), s)"
    if "\<forall>it \<in> set (items s). Item.id it \<noteq> i" for s i
    using that by (simp add: delete_item_def find_item_None [symmetric])
  have "delete_item initial_store 9999 =
      (Inl (HTTPException 404 ''Item not found''), initial_store)"
    by (rule gen) (simp add: initial_store_def)
  with gen [of s i] show ?thesis by (simp add: error_response_def)
qed

theorem delete_item_missing_witness:
  "list_all (\<lambda>it. Item.id it \<noteq> 2)
      [\<lparr>Item.id = 1, Item.name = ''Pen'', Item.description = None\<rparr>]
   \<and> delete_item \<lparr>items = [\<lparr>Item.id = 1, Item.name = ''Pen'', Item.description = None\<rparr>],
                   next_id = 2\<rparr> 2
      = (Inl (HTTPException 404 ''Item not found''),
         \<lparr>items = [\<lparr>Item.id = 1, Item.name = ''Pen'', Item.description = None\<rparr>],
          next_id = 2\<rparr>)"
  using delete_item_missing
          [of "\<lparr>items = [\<lparr>Item.id = 1, Item.name = ''Pen'', Item.description = None\<rparr>],
                next_id = 2\<rparr>" 2 "''dev''"]
  by simp

text \<open>
  Claim C9. On a store reached from the empty one, a successful delete of id \<open>i\<close>
  finds exactly one item with that id: the list splits around it, no other item
  has the id, the new list is the old one without this item, in the same order,
  and the counter is the same. The response is 204 without content.
\<close>

theorem delete_item_removes_one:
  assumes "delete_item (run APP_ENV initial_store rs) i = (Inr (), s')"
  shows "\<exists>pre it post.
           items (run APP_ENV initial_store rs) = pre @ it # post
         \<and> Item.id it = i
         \<and> (\<forall>x \<in> set (pre @ post). Item.id x \<noteq> i)
         \<and> items s' = pre @ post
         \<and> next_id s' = next_id (run APP_ENV initial_store rs)
         \<and> app APP_ENV (run APP_ENV initial_store rs) (DELETE_item i) =
             (\<lparr>status = 204, content = NoContent\<rparr>, s')"
proof -
  have "ids_fresh (run APP_ENV initial_store rs)"
    by (simp add: run_ids_fresh ids_fresh_initial)
  from delete_item_unique [OF this assms] obtain pre it post where
    "items (run APP_ENV initial_store rs) = pre @ it # post" "Item.id it = i"
    "\<forall>x \<in> set (pre @ post). Item.id x \<noteq> i"
    "s' = (run APP_ENV initial_store rs)\<lparr>items := pre @ post\<rparr>" by blast
  moreover from this have "items s' = pre @ post"
    "next_id s' = next_id (run APP_ENV initial_store rs)" by simp_all
  moreover from assms have "app APP_ENV (run APP_ENV initial_store rs) (DELETE_item i) =
             (\<lparr>status = 204, content = NoContent\<rparr>, s')" by simp
  ultimately show ?thesis by blast
qed

theorem delete_item_removes_one_witness:
  "delete_item (run ''dev'' initial_store
       [POST_items \<lparr>ItemCreate.name = ''Pen'', ItemCreate.description = None\<rparr>,
        POST_items \<lparr>ItemCreate.name = ''Ink'', ItemCreate.description = None\<rparr>,
        POST_items \<lparr>ItemCreate.name = ''Cap'', ItemCreate.description = None\<rparr>]) 2
     = (Inr (), \<lparr>items = [\<lparr>Item.id = 1, Item.name = ''Pen'', Item.description = None\<rparr>,
                          \<lparr>Item.id = 3, Item.name = ''Cap'', Item.description = None\<rparr>],
                 next_id = 4\<rparr>)
   \<and> app ''dev'' (run ''dev'' initial_store
       [POST_items \<lparr>ItemCreate.name = ''Pen'', ItemCreate.description = None\<rparr>,
        POST_items \<lparr>ItemCreate.name = ''Ink'', ItemCreate.description = None\<rparr>,
        POST_items \<lparr>ItemCreate.name = ''Cap'', ItemCreate.description = None\<rparr>])
       (DELETE_item 2)
     = (\<lparr>status = 204, content = NoContent\<rparr>,
        \<lparr>items = [\<lparr>Item.id = 1, Item.name = ''Pen'', Item.description = None\<rparr>,
                  \<lparr>Item.id = 3, Item.name = ''Cap'', Item.description = None\<rparr>],
         next_id = 4\<rparr>)"
proof -
  let ?rs = "[POST_items \<lparr>ItemCreate.name = ''Pen'', ItemCreate.description = None\<rparr>,
        POST_items \<lparr>ItemCreate.name = ''Ink'', ItemCreate.description = None\<rparr>,
        POST_items \<lparr>ItemCreate.name = ''Cap'', ItemCreate.description = None\<rparr>]"
  let ?s' = "\<lparr>items = [\<lparr>Item.id = 1, Item.name = ''Pen'', Item.description = None\<rparr>,
                          \<lparr>Item.id = 3, Item.name = ''Cap'', Item.description = None\<rparr>],
                 next_id = 4\<rparr>"
  have h: "delete_item (run ''dev'' initial_store ?rs) 2 = (Inr (), ?s')"
    by (simp add: string_defs handler_defs)
  from delete_item_removes_one [OF h] h show ?thesis by blast
qed

text \<open>
  Claim C7. Let a create on a store reached from the empty one succeed with item
  \<open>it\<close>, and let a later delete of its id succeed (any requests may come in
  between). Then, after any further requests, a get of that id is answered with 404
  and "Item not found", and no create returns that id; nor does any create issued
  at any point after the first one.
\<close>

theorem id_never_reused:
  assumes "create_item (run APP_ENV initial_store rs0) c = (Inr it, s1)"
      and "delete_item (run APP_ENV s1 rs1) (Item.id it) = (Inr (), s3)"
  shows "get_item (run APP_ENV s3 rs2) (Item.id it) =
           (Inl (HTTPException 404 ''Item not found''), run APP_ENV s3 rs2)
       \<and> app APP_ENV (run APP_ENV s3 rs2) (GET_item (Item.id it)) =
           (\<lparr>status = 404, content = Detail ''Item not found''\<rparr>, run APP_ENV s3 rs2)
       \<and> (\<forall>c' it' s'. create_item (run APP_ENV s3 rs2) c' = (Inr it', s')
             \<longrightarrow> Item.id it' \<noteq> Item.id it)
       \<and> (\<forall>rs c' it' s'. create_item (run APP_ENV s1 rs) c' = (Inr it', s')
             \<longrightarrow> Item.id it' \<noteq> Item.id it)"
proof -
  let ?s0 = "run APP_ENV initial_store rs0"
  let ?s2 = "run APP_ENV s1 rs1"
  let ?s4 = "run APP_ENV s3 rs2"
  have fresh0: "ids_fresh ?s0" by (simp add: run_ids_fresh ids_fresh_initial)
  from assms(1) have it: "Item.id it = next_id ?s0" and s1: "s1 = snd (create_item ?s0 c)"
    and n1: "next_id s1 = next_id ?s0 + 1"
    by (cases ?s0 c rule: create_item_cases; auto)+
  from fresh0 s1 have "ids_fresh s1" by (simp add: create_item_ids_fresh)
  then have fresh2: "ids_fresh ?s2" by (rule run_ids_fresh)
  have below: "Item.id it < next_id (run APP_ENV s1 rs)" for rs
    using run_next_id_mono [of s1 APP_ENV rs] it n1 by simp
  from delete_item_unique [OF fresh2 assms(2)] obtain pre x post where
    "\<forall>y \<in> set (pre @ post). Item.id y \<noteq> Item.id it" "s3 = ?s2\<lparr>items := pre @ post\<rparr>"
    by blast
  with below [of rs1] have "Item.id it < next_id s3"
    "\<forall>y \<in> set (items s3). Item.id y \<noteq> Item.id it" by simp_all
  from run_absent [OF this, of APP_ENV rs2]
  have lt4: "Item.id it < next_id ?s4" and absent4: "\<forall>y \<in> set (items ?s4). Item.id y \<noteq> Item.id it"
    by simp_all
  from absent4 have get: "get_item ?s4 (Item.id it) =
      (Inl (HTTPException 404 ''Item not found''), ?s4)" by (rule get_item_missing)
  then have resp: "app APP_ENV ?s4 (GET_item (Item.id it)) =
      (\<lparr>status = 404, content = Detail ''Item not found''\<rparr>, ?s4)"
    by (simp add: error_response_def)
  have later: "Item.id it' \<noteq> Item.id it"
    if "create_item s c' = (Inr it', s')" "Item.id it < next_id s" for s c' it' s'
    using that by (cases s c' rule: create_item_cases) auto
  from later lt4 have "\<forall>c' it' s'. create_item ?s4 c' = (Inr it', s')
      \<longrightarrow> Item.id it' \<noteq> Item.id it" by blast
  moreover from later below have "\<forall>rs c' it' s'. create_item (run APP_ENV s1 rs) c' = (Inr it', s')
      \<longrightarrow> Item.id it' \<noteq> Item.id it" by blast
  ultimately show ?thesis using get resp by blast
qed

theorem id_never_reused_witness:
  "create_item (run ''dev'' initial_store
       [POST_items \<lparr>ItemCreate.name = ''Pen'', ItemCreate.description = None\<rparr>])
       \<lparr>ItemCreate.name = ''Ink'', ItemCreate.description = None\<rparr>
     = (Inr \<lparr>Item.id = 2, Item.name = ''Ink'', Item.description = None\<rparr>,
        \<lparr>items = [\<lparr>Item.id = 1, Item.name = ''Pen'', Item.description = None\<rparr>,
                  \<lparr>Item.id = 2, Item.name = ''Ink'', Item.description = None\<rparr>],
         next_id = 3\<rparr>)
   \<and> delete_item (run ''dev''
        \<lparr>items = [\<lparr>Item.id = 1, Item.name = ''Pen'', Item.description = None\<rparr>,
                  \<lparr>Item.id = 2, Item.name = ''Ink'', Item.description = None\<rparr>],
         next_id = 3\<rparr> [GET_items]) 2
     = (Inr (), \<lparr>items = [\<lparr>Item.id = 1, Item.name = ''Pen'', Item.description = None\<rparr>],
                 next_id = 3\<rparr>)
   \<and> fst (get_item (run ''dev''
        \<lparr>items = [\<lparr>Item.id = 1, Item.name = ''Pen'', Item.description = None\<rparr>],
         next_id = 3\<rparr>
        [POST_items \<lparr>ItemCreate.name = ''Ink'', ItemCreate.description = None\<rparr>]) 2)
     = Inl (HTTPException 404 ''Item not found'')"
proof -
  let ?pen = "\<lparr>Item.id = 1, Item.name = ''Pen'', Item.description = None\<rparr>"
  let ?ink = "\<lparr>Item.id = 2, Item.name = ''Ink'', Item.description = None\<rparr>"
  let ?c = "\<lparr>ItemCreate.name = ''Ink'', ItemCreate.description = None\<rparr>"
  let ?s1 = "\<lparr>items = [?pen, ?ink], next_id = 3\<rparr>"
  let ?s3 = "\<lparr>items = [?pen], next_id = 3\<rparr>"
  have h1: "create_item (run ''dev'' initial_store
       [POST_items \<lparr>ItemCreate.name = ''Pen'', ItemCreate.description = None\<rparr>]) ?c
     = (Inr ?ink, ?s1)"
    by (simp add: string_defs handler_defs)
  have h2: "delete_item (run ''dev'' ?s1 [GET_items]) (Item.id ?ink) = (Inr (), ?s3)"
    by (simp add: handler_defs)
  from id_never_reused [OF h1 h2, of "[POST_items ?c]"] h1 h2
  show ?thesis by simp
qed

section \<open>Listing\<close>

text \<open>
  Claim C8. The list request always answers 200 with the stored list and leaves
  the store unchanged; on the empty store the list is empty. A successful create
  puts its item at the end of the list, so on every store reached from the empty
  one the items stand in the order of their creation, that is by increasing id.
\<close>

theorem get_items_insertion_order:
  "get_items s = (items s, s)
   \<and> app APP_ENV s GET_items = (\<lparr>status = 200, content = ItemList (items s)\<rparr>, s)
   \<and> app APP_ENV initial_store GET_items =
       (\<lparr>status = 200, content = ItemList []\<rparr>, initial_store)
   \<and> (\<forall>c it s'. create_item s c = (Inr it, s') \<longrightarrow> items s' = items s @ [it])
   \<and> sorted_wrt (<) (map Item.id (items (run APP_ENV initial_store rs)))"
proof -
  have "items s' = items s @ [it]" if "create_item s c = (Inr it, s')" for c it s'
    using that by (cases s c rule: create_item_cases) auto
  moreover have "ids_fresh (run APP_ENV initial_store rs)"
    by (simp add: run_ids_fresh ids_fresh_initial)
  ultimately show ?thesis
    by (simp add: get_items_def initial_store_def ids_fresh_def)
qed

theorem get_items_insertion_order_witness:
  "create_item \<lparr>items = [\<lparr>Item.id = 1, Item.name = ''Pen'', Item.description = None\<rparr>],
                 next_id = 2\<rparr>
      \<lparr>ItemCreate.name = ''Ink'', ItemCreate.description = None\<rparr>
     = (Inr \<lparr>Item.id = 2, Item.name = ''Ink'', Item.description = None\<rparr>,
        \<lparr>items = [\<lparr>Item.id = 1, Item.name = ''Pen'', Item.description = None\<rparr>,
                  \<lparr>Item.id = 2, Item.name = ''Ink'', Item.description = None\<rparr>],
         next_id = 3\<rparr>)
   \<and> items \<lparr>items = [\<lparr>Item.id = 1, Item.name = ''Pen'', Item.description = None\<rparr>,
                      \<lparr>Item.id = 2, Item.name = ''Ink'', Item.description = None\<rparr>],
             next_id = 3\<rparr>
     = items \<lparr>items = [\<lparr>Item.id = 1, Item.name = ''Pen'', Item.description = None\<rparr>],
               next_id = 2\<rparr>
       @ [\<lparr>Item.id = 2, Item.name = ''Ink'', Item.description = None\<rparr>]
   \<and> app ''dev'' \<lparr>items = [\<lparr>Item.id = 1, Item.name = ''Pen'', Item.description = None\<rparr>],
                   next_id = 2\<rparr> GET_items
     = (\<lparr>status = 200,
         content = ItemList [\<lparr>Item.id = 1, Item.name = ''Pen'', Item.description = None\<rparr>]\<rparr>,
        \<lparr>items = [\<lparr>Item.id = 1, Item.name = ''Pen'', Item.description = None\<rparr>],
         next_id = 2\<rparr>)"
proof -
  let ?s = "\<lparr>items = [\<lparr>Item.id = 1, Item.name = ''Pen'', Item.description = None\<rparr>],
             next_id = 2\<rparr>"
  let ?c = "\<lparr>ItemCreate.name = ''Ink'', ItemCreate.description = None\<rparr>"
  let ?it = "\<lparr>Item.id = 2, Item.name = ''Ink'', Item.description = None\<rparr>"
  let ?s' = "\<lparr>items = [\<lparr>Item.id = 1, Item.name = ''Pen'', Item.description = None\<rparr>, ?it],
              next_id = 3\<rparr>"
  have step: "create_item ?s ?c = (Inr ?it, ?s')"
    by (simp add: string_defs handler_defs)
  from get_items_insertion_order [of ?s "''dev''" "[]"]
  have "app ''dev'' ?s GET_items = (\<lparr>status = 200, content = ItemList (items ?s)\<rparr>, ?s)"
    and "create_item ?s ?c = (Inr ?it, ?s') \<longrightarrow> items ?s' = items ?s @ [?it]"
    by blast+
  with step show ?thesis by simp
qed

section \<open>Blank names\<close>

text \<open>
  Claim C10. A name made of white space only (the empty name included) normalizes
  to the empty string. Such a name is accepted, and stored as submitted, when no
  stored name normalizes to the empty string; it is refused with 400 and the
  duplicate detail when some stored name is blank; and of two creates with blank
  names in a row the second is refused, whatever the store was.
\<close>

theorem blank_names_collide:
  assumes "\<forall>ch \<in> set nm. isspace ch"
  shows "normalize_name nm = []
       \<and> ((\<forall>it \<in> set (items s). normalize_name (Item.name it) \<noteq> []) \<longrightarrow>
            create_item s \<lparr>ItemCreate.name = nm, ItemCreate.description = d\<rparr> =
              (Inr \<lparr>Item.id = next_id s, Item.name = nm, Item.description = d\<rparr>,
               s\<lparr>items := items s @ [\<lparr>Item.id = next_id s, Item.name = nm,
                                        Item.description = d\<rparr>],
                 next_id := next_id s + 1\<rparr>))
       \<and> ((\<exists>it \<in> set (items s). \<forall>ch \<in> set (Item.name it). isspace ch) \<longrightarrow>
            create_item s \<lparr>ItemCreate.name = nm, ItemCreate.description = d\<rparr> =
              (Inl (HTTPException 400 ''Item with this name already exists''), s)
          \<and> app APP_ENV s (POST_items \<lparr>ItemCreate.name = nm, ItemCreate.description = d\<rparr>) =
              (\<lparr>status = 400, content = Detail ''Item with this name already exists''\<rparr>, s))
       \<and> ((\<forall>ch \<in> set nm'. isspace ch) \<longrightarrow>
            fst (create_item
                   (snd (create_item s \<lparr>ItemCreate.name = nm', ItemCreate.description = d'\<rparr>))
                   \<lparr>ItemCreate.name = nm, ItemCreate.description = d\<rparr>)
              = Inl (HTTPException 400 ''Item with this name already exists''))"
proof (intro conjI impI)
  let ?c = "\<lparr>ItemCreate.name = nm, ItemCreate.description = d\<rparr>"
  from assms show blank: "normalize_name nm = []" by (rule normalize_name_blank)
  {
    assume "\<forall>it \<in> set (items s). normalize_name (Item.name it) \<noteq> []"
    with blank have "\<forall>it \<in> set (items s).
        normalize_name (Item.name it) \<noteq> normalize_name (ItemCreate.name ?c)" by simp
    from create_item_fresh [OF this]
    show "create_item s ?c =
              (Inr \<lparr>Item.id = next_id s, Item.name = nm, Item.description = d\<rparr>,
               s\<lparr>items := items s @ [\<lparr>Item.id = next_id s, Item.name = nm,
                                        Item.description = d\<rparr>],
                 next_id := next_id s + 1\<rparr>)" by simp
  }
  {
    assume "\<exists>it \<in> set (items s). \<forall>ch \<in> set (Item.name it). isspace ch"
    then obtain it where "it \<in> set (items s)" "normalize_name (Item.name it) = []"
      by (auto dest: normalize_name_blank)
    with blank have "\<exists>it \<in> set (items s).
        normalize_name (Item.name it) = normalize_name (ItemCreate.name ?c)" by auto
    then show dup: "create_item s ?c =
        (Inl (HTTPException 400 ''Item with this name already exists''), s)"
      by (rule create_item_taken)
    then show "app APP_ENV s (POST_items ?c) =
        (\<lparr>status = 400, content = Detail ''Item with this name already exists''\<rparr>, s)"
      by (simp add: error_response_def)
  }
  {
    let ?c' = "\<lparr>ItemCreate.name = nm', ItemCreate.description = d'\<rparr>"
    assume "\<forall>ch \<in> set nm'. isspace ch"
    then have "normalize_name nm' = []" by (rule normalize_name_blank)
    with blank have "normalize_name (ItemCreate.name ?c) = normalize_name (ItemCreate.name ?c')"
      by simp
    from create_item_twice [OF this, of s]
    show "fst (create_item (snd (create_item s ?c')) ?c)
              = Inl (HTTPException 400 ''Item with this name already exists'')" by simp
  }
qed

theorem blank_names_collide_witness:
  "list_all isspace [CHR 0x20, CHR 0x09]
   \<and> normalize_name [CHR 0x20, CHR 0x09] = []
   \<and> items initial_store = []
   \<and> create_item initial_store
        \<lparr>ItemCreate.name = [CHR 0x20, CHR 0x09], ItemCreate.description = None\<rparr>
      = (Inr \<lparr>Item.id = 1, Item.name = [CHR 0x20, CHR 0x09], Item.description = None\<rparr>,
         \<lparr>items = [\<lparr>Item.id = 1, Item.name = [CHR 0x20, CHR 0x09], Item.description = None\<rparr>],
          next_id = 2\<rparr>)
   \<and> (\<exists>it \<in> set [\<lparr>Item.id = 1, Item.name = '''', Item.description = None\<rparr>].
         \<forall>ch \<in> set (Item.name it). isspace ch)
   \<and> create_item \<lparr>items = [\<lparr>Item.id = 1, Item.name = '''', Item.description = None\<rparr>],
                   next_id = 2\<rparr>
        \<lparr>ItemCreate.name = [CHR 0x20, CHR 0x09], ItemCreate.description = None\<rparr>
      = (Inl (HTTPException 400 ''Item with this name already exists''),
         \<lparr>items = [\<lparr>Item.id = 1, Item.name = '''', Item.description = None\<rparr>], next_id = 2\<rparr>)"
proof -
  have h: "\<forall>ch \<in> set [CHR 0x20, CHR 0x09]. isspace ch" by (simp add: isspace_def)
  from blank_names_collide [OF h, of initial_store None "''dev''" "[]" None]
       blank_names_collide
         [OF h, of "\<lparr>items = [\<lparr>Item.id = 1, Item.name = '''', Item.description = None\<rparr>],
                     next_id = 2\<rparr>" None "''dev''" "[]" None] h
  show ?thesis by (simp add: initial_store_def isspace_def)
qed

end
